theory Spec2Isabelle
  imports Main "HOL-Library.Sublist" "HOL-Library.Multiset"
begin

section \<open>Strings and line-oriented streams\<close>

text \<open>
  The program is Python 2: a \<open>str\<close> is a byte string, modelled as \<open>string\<close>.
  A stream opened for reading is modelled by the content that has not been read yet;
  a stream opened for writing by the content written to it so far. Reads and writes on
  an open stream always succeed in this model; only \<open>open\<close> can fail.
\<close>

datatype error = IndexError | IOError | UnboundLocalError

text \<open>The bytes that \<open>str.split()\<close> and \<open>str.strip()\<close> treat as whitespace.\<close>

definition is_space :: "char \<Rightarrow> bool" where
  "is_space c \<longleftrightarrow>
     c = CHR 0x20 \<or> c = CHR 0x09 \<or> c = CHR 0x0A \<or> c = CHR 0x0B \<or> c = CHR 0x0C \<or> c = CHR 0x0D"

text \<open>\<open>s.split()\<close>: the maximal runs of non-whitespace bytes, in order.
  The first argument is the token being collected.\<close>

fun split_acc :: "string \<Rightarrow> string \<Rightarrow> string list" where
  "split_acc cur [] = (if cur = [] then [] else [cur])"
| "split_acc cur (c # cs) =
     (if is_space c then (if cur = [] then split_acc [] cs else cur # split_acc [] cs)
      else split_acc (cur @ [c]) cs)"

definition split_ws :: "string \<Rightarrow> string list" where
  "split_ws s = split_acc [] s"

text \<open>\<open>s.strip()\<close>: leading and trailing whitespace removed.\<close>

definition strip :: "string \<Rightarrow> string" where
  "strip s = rev (dropWhile is_space (rev (dropWhile is_space s)))"

text \<open>\<open>f.readline()\<close>: the bytes up to and including the next newline, or whatever is
  left when there is no newline; the empty string exactly at the end of the stream.
  Returns the line and the unread rest.\<close>

fun readline :: "string \<Rightarrow> string \<times> string" where
  "readline [] = ([], [])"
| "readline (c # cs) =
     (if c = CHR 0x0A then ([c], cs)
      else (case readline cs of (l, r) \<Rightarrow> (c # l, r)))"

text \<open>\<open>[ f.readline() for j in xrange(4) ]\<close>\<close>

definition read4 :: "string \<Rightarrow> string list \<times> string" where
  "read4 f =
     (case readline f of (l0, f0) \<Rightarrow>
      case readline f0 of (l1, f1) \<Rightarrow>
      case readline f1 of (l2, f2) \<Rightarrow>
      case readline f2 of (l3, f3) \<Rightarrow> ([l0, l1, l2, l3], f3))"

text \<open>\<open>all(lines)\<close>: every line is a non-empty string.\<close>

definition all_lines :: "string list \<Rightarrow> bool" where
  "all_lines ls = list_all (\<lambda>l. l \<noteq> []) ls"

section \<open>The synchronization loop of \<open>BarcodeSplitter.run\<close>\<close>

text \<open>
  The three parallel arrays \<open>slots\<close>, \<open>demultiplexed_files_1\<close> and
  \<open>demultiplexed_files_2\<close> are indexed by the same \<open>i\<close>; one record holds the three
  entries of one index: the four buffered lines, the unread rest of the mate-1 file and
  the bytes written to the mate-2 output stream so far.
\<close>

record slot =
  lookahead :: "string list"
  mate1 :: string
  out2 :: string

text \<open>\<open>self.log["demultiplexed"]\<close>, \<open>self.log["not matched"]\<close> and the lines written
  to \<open>sys.stderr\<close>.\<close>

record state =
  slots :: "slot list"
  demultiplexed :: nat
  not_matched :: nat
  stderr :: "string list"

text \<open>Priming: \<open>[ f_1.readline().strip() for j in xrange(4) ]\<close> on a freshly opened
  pair of streams.\<close>

definition prime :: "string \<Rightarrow> slot" where
  "prime f_1 = (case read4 f_1 of (ls, r) \<Rightarrow> \<lparr>lookahead = map strip ls, mate1 = r, out2 = []\<rparr>)"

text \<open>The body of the \<open>for\<close> loop at the matching index: \<open>writelines\<close> appends the
  four lines, then the next four lines of the mate-1 file are buffered (not stripped).\<close>

definition advance :: "string list \<Rightarrow> slot \<Rightarrow> slot" where
  "advance read_2_lines s =
     (case read4 (mate1 s) of (ls, r) \<Rightarrow>
        \<lparr>lookahead = ls, mate1 = r, out2 = out2 s @ concat read_2_lines\<rparr>)"

text \<open>The \<open>for i in xrange(len(fnames))\<close> scan: the index at which the loop breaks,
  \<open>None\<close> when it runs to the end with \<open>found = False\<close>, or the IndexError of
  \<open>split()[0]\<close> on a line without a token.\<close>

fun scan :: "string \<Rightarrow> slot list \<Rightarrow> error + nat option" where
  "scan read_name [] = Inr None"
| "scan read_name (s # ss) =
     (case lookahead s of
        [] \<Rightarrow> Inl IndexError
      | l0 # _ \<Rightarrow>
          if l0 = [] then map_sum id (map_option Suc) (scan read_name ss)
          else (case split_ws l0 of
                  [] \<Rightarrow> Inl IndexError
                | t # _ \<Rightarrow>
                    if t = read_name then Inr (Some 0)
                    else map_sum id (map_option Suc) (scan read_name ss)))"

text \<open>One iteration of the \<open>while\<close> loop on the four lines just read from the mate-2
  file: the read name, the scan, and either the write, the refill and the count at the
  index found, or the diagnostic and the other count.\<close>

definition step :: "state \<Rightarrow> string list \<Rightarrow> error + state" where
  "step st read_2_lines =
     (case read_2_lines of
        [] \<Rightarrow> Inl IndexError
      | l0 # _ \<Rightarrow>
          (case split_ws l0 of
             [] \<Rightarrow> Inl IndexError
           | read_name # _ \<Rightarrow>
               (case scan read_name (slots st) of
                  Inl e \<Rightarrow> Inl e
                | Inr (Some i) \<Rightarrow>
                    Inr (st\<lparr>slots := (slots st)[i := advance read_2_lines (slots st ! i)],
                            demultiplexed := demultiplexed st + 1\<rparr>)
                | Inr None \<Rightarrow>
                    Inr (st\<lparr>stderr := stderr st @ [''mate missing in file_2: '' @ read_name @ [CHR 0x0A]],
                            not_matched := not_matched st + 1\<rparr>))))"

text \<open>The \<open>while all(read_2_lines)\<close> loop. Its arguments are the engine state, the four
  lines read last and the unread rest of the mate-2 file. Every iteration takes at least
  one byte from the mate-2 file, so the loop ends (the termination proof follows the
  lemmas on \<open>read4\<close>).\<close>

function sync_loop :: "state \<Rightarrow> string list \<Rightarrow> string \<Rightarrow> error + state" where
  "sync_loop st read_2_lines f_2 =
     (if all_lines read_2_lines then
        (case step st read_2_lines of
           Inl e \<Rightarrow> Inl e
         | Inr st' \<Rightarrow> (case read4 f_2 of (ls, r) \<Rightarrow> sync_loop st' ls r))
      else Inr st)"
  by pat_completeness auto

text \<open>Lines 196 to 230 from a given engine state: the first four lines are read, then
  the loop runs.\<close>

definition sync_from :: "state \<Rightarrow> string \<Rightarrow> error + state" where
  "sync_from st f_2 = (case read4 f_2 of (ls, r) \<Rightarrow> sync_loop st ls r)"

text \<open>The body of the \<open>try\<close> block once all streams are open: \<open>files_1\<close> are the
  contents of the mate-1 files in the order of \<open>fnames\<close>, \<open>f_2\<close> is the content of the
  mate-2 file. The counters start at zero, as \<open>__init__\<close> sets them.\<close>

definition synchronize :: "string list \<Rightarrow> string \<Rightarrow> error + state" where
  "synchronize files_1 f_2 =
     sync_from \<lparr>slots = map prime files_1, demultiplexed = 0, not_matched = 0, stderr = []\<rparr> f_2"

section \<open>Opening and closing the streams in \<open>BarcodeSplitter.run\<close>\<close>

text \<open>
  A stream is named by the path it was opened on and the mode. The environment of a run
  is what \<open>open\<close> finds: \<open>fs name\<close> is the content of a file that can be opened for
  reading (\<open>None\<close> when \<open>open\<close> raises IOError), \<open>wr name\<close> says whether
  \<open>open(name, "w")\<close> succeeds. \<open>fnames\<close> is the list that \<open>os.listdir\<close> and the
  prefix and suffix filter produce; the external classifier that runs before is not
  modelled.
\<close>

datatype handle = Rd string | Wr string

text \<open>\<open>fname.replace("_demux1", "_demux2")\<close>: every occurrence, left to right, without
  overlap. The counter is the number of bytes of a replaced occurrence still to skip.\<close>

fun replace_from :: "nat \<Rightarrow> string \<Rightarrow> string \<Rightarrow> string \<Rightarrow> string" where
  "replace_from n old new [] = []"
| "replace_from (Suc n) old new (c # cs) = replace_from n old new cs"
| "replace_from 0 old new (c # cs) =
     (if prefix old (c # cs) then new @ replace_from (length old - 1) old new cs
      else c # replace_from 0 old new cs)"

definition demux2_name :: "string \<Rightarrow> string" where
  "demux2_name fname = replace_from 0 ''_demux1'' ''_demux2'' fname"

text \<open>\<open>[ open(fname) for fname in fnames ]\<close>: the streams open so far are threaded
  through; when one \<open>open\<close> raises, the list under construction is lost and the streams
  it held stay open. The result is the open streams and the contents read, or \<open>None\<close>
  for the IOError.\<close>

fun open_inputs ::
  "(string \<Rightarrow> string option) \<Rightarrow> string list \<Rightarrow> handle list \<Rightarrow> handle list \<times> string list option"
where
  "open_inputs fs [] opened = (opened, Some [])"
| "open_inputs fs (fname # fnames) opened =
     (case fs fname of
        None \<Rightarrow> (opened, None)
      | Some c \<Rightarrow>
          (case open_inputs fs fnames (opened @ [Rd fname]) of
             (opened', None) \<Rightarrow> (opened', None)
           | (opened', Some cs) \<Rightarrow> (opened', Some (c # cs))))"

text \<open>\<open>[ open(fname.replace("_demux1", "_demux2"), "w") for fname in fnames ]\<close>\<close>

fun open_outputs :: "(string \<Rightarrow> bool) \<Rightarrow> string list \<Rightarrow> handle list \<Rightarrow> handle list \<times> bool" where
  "open_outputs wr [] opened = (opened, True)"
| "open_outputs wr (fname # fnames) opened =
     (if wr (demux2_name fname) then open_outputs wr fnames (opened @ [Wr (demux2_name fname)])
      else (opened, False))"

text \<open>\<open>map(lambda x: x.close(), files)\<close>\<close>

definition close_all :: "handle list \<Rightarrow> handle list \<Rightarrow> handle list" where
  "close_all hs opened = fold remove1 hs opened"

text \<open>How a run ends: the value or exception of lines 177 to 233, and the streams that
  the program opened and did not close (by \<open>close()\<close> or by leaving the \<open>with\<close>
  block).\<close>

record job_end =
  outcome :: "error + state"
  not_closed :: "handle list"

text \<open>
  Lines 176 to 233. The \<open>with\<close> statement closes \<open>f_2\<close> on every exit. The \<open>finally\<close>
  clause reads \<open>demultiplexed_files_1\<close> and then \<open>demultiplexed_files_2\<close>; a name
  whose list comprehension raised was never assigned, so reading it raises
  UnboundLocalError, which replaces the IOError and skips the rest of the clause.
\<close>

definition run ::
  "(string \<Rightarrow> string option) \<Rightarrow> (string \<Rightarrow> bool) \<Rightarrow> string list \<Rightarrow> string \<Rightarrow> job_end"
where
  "run fs wr fnames file_2 =
     (case fs file_2 of
        None \<Rightarrow> \<lparr>outcome = Inl IOError, not_closed = []\<rparr>
      | Some f_2 \<Rightarrow>
          (case open_inputs fs fnames [Rd file_2] of
             (opened, None) \<Rightarrow>
               \<lparr>outcome = Inl UnboundLocalError, not_closed = remove1 (Rd file_2) opened\<rparr>
           | (opened, Some files_1) \<Rightarrow>
               (case open_outputs wr fnames opened of
                  (opened', False) \<Rightarrow>
                    \<lparr>outcome = Inl UnboundLocalError,
                     not_closed = remove1 (Rd file_2) (close_all (map Rd fnames) opened')\<rparr>
                | (opened', True) \<Rightarrow>
                    \<lparr>outcome = synchronize files_1 f_2,
                     not_closed =
                       remove1 (Rd file_2)
                         (close_all (map (Wr \<circ> demux2_name) fnames)
                            (close_all (map Rd fnames) opened'))\<rparr>)))"

section \<open>Prefix inference\<close>

text \<open>\<open>find_prefix\<close>: the loop over \<open>zip(a, b)\<close> with the accumulator \<open>c\<close>.\<close>

fun find_prefix_loop :: "string \<Rightarrow> (char \<times> char) list \<Rightarrow> string" where
  "find_prefix_loop c [] = c"
| "find_prefix_loop c ((x, y) # zs) = (if x \<noteq> y then c else find_prefix_loop (c @ [x]) zs)"

definition find_prefix :: "string \<Rightarrow> string \<Rightarrow> string" where
  "find_prefix a b = find_prefix_loop [] (zip a b)"

section \<open>Vocabulary of the properties\<close>

text \<open>
  The key of an identifier line is the first token of \<open>split()\<close>; a line without a
  token has none (the source raises IndexError there). The first buffered line of a slot
  is the empty string when its mate-1 file is exhausted; otherwise it either holds the
  key \<open>k\<close>, holds another key, or holds no token at all.
\<close>

definition key_of :: "string \<Rightarrow> string option" where
  "key_of l = (case split_ws l of [] \<Rightarrow> None | t # _ \<Rightarrow> Some t)"

definition read_name_of :: "string list \<Rightarrow> string option" where
  "read_name_of read_2_lines = (case read_2_lines of [] \<Rightarrow> None | l0 # _ \<Rightarrow> key_of l0)"

definition exhausted :: "slot \<Rightarrow> bool" where
  "exhausted s = (case lookahead s of [] \<Rightarrow> False | l # _ \<Rightarrow> l = [])"

definition holds_key :: "string \<Rightarrow> slot \<Rightarrow> bool" where
  "holds_key k s = (case lookahead s of [] \<Rightarrow> False | l # _ \<Rightarrow> l \<noteq> [] \<and> key_of l = Some k)"

definition tokenless :: "slot \<Rightarrow> bool" where
  "tokenless s = (case lookahead s of [] \<Rightarrow> False | l # _ \<Rightarrow> l \<noteq> [] \<and> key_of l = None)"

definition other_key :: "string \<Rightarrow> slot \<Rightarrow> bool" where
  "other_key k s = (case lookahead s of [] \<Rightarrow> False
      | l # _ \<Rightarrow> l \<noteq> [] \<and> (case key_of l of None \<Rightarrow> False | Some t \<Rightarrow> t \<noteq> k))"

text \<open>The records the loop reads from a mate-2 file: the groups of four non-empty lines
  before the first group that is not.\<close>

function mate2_records :: "string \<Rightarrow> string list list" where
  "mate2_records f_2 =
     (case read4 f_2 of (ls, r) \<Rightarrow> if all_lines ls then ls # mate2_records r else [])"
  by pat_completeness auto

text \<open>The iterations of the loop on a given list of records, stopping at the first
  exception.\<close>

fun run_steps :: "state \<Rightarrow> string list list \<Rightarrow> error + state" where
  "run_steps st [] = Inr st"
| "run_steps st (r # rs) = (case step st r of Inl e \<Rightarrow> Inl e | Inr st' \<Rightarrow> run_steps st' rs)"

text \<open>
  A FASTQ record as its four lines without the newlines, and the text of a file of
  records (four newline-terminated lines per record). A record is well formed when it
  has four lines, none contains a newline, and the identifier line has a token.
\<close>

definition lines_of :: "string list \<Rightarrow> string list" where
  "lines_of r = map (\<lambda>l. l @ [CHR 0x0A]) r"

definition record_text :: "string list \<Rightarrow> string" where
  "record_text r = concat (lines_of r)"

definition fastq_text :: "string list list \<Rightarrow> string" where
  "fastq_text rs = concat (map record_text rs)"

definition wf_record :: "string list \<Rightarrow> bool" where
  "wf_record r \<longleftrightarrow> length r = 4 \<and> list_all (\<lambda>l. CHR 0x0A \<notin> set l) r \<and> key_of (hd r) \<noteq> None"



section \<open>Reading lines\<close>

text \<open>
  Four reads split the unread content into the four lines and the rest; when the four
  lines are non-empty the rest is shorter, which is why both loops over a file end.
\<close>

lemma readline_parts: "readline f = (l, r) \<Longrightarrow> l @ r = f"
  by (induction f arbitrary: l r) (auto split: if_splits prod.splits)

lemma read4_parts: "read4 f = (ls, r) \<Longrightarrow> concat ls @ r = f"
  by (auto simp: read4_def split: prod.splits dest!: readline_parts)

lemma all_lines_concat: "all_lines ls \<Longrightarrow> ls \<noteq> [] \<Longrightarrow> concat ls \<noteq> []"
  by (cases ls) (auto simp: all_lines_def)

lemma read4_length: "read4 f = (ls, r) \<Longrightarrow> length ls = 4"
  by (auto simp: read4_def split: prod.splits)

lemma read4_shorter:
  assumes "read4 f = (ls, r)" "all_lines ls"
  shows "length r < length f"
proof -
  from assms(1) have "concat ls @ r = f" by (rule read4_parts)
  then have "length (concat ls) + length r = length f" by (metis length_append)
  moreover from assms(1) have "ls \<noteq> []" by (auto dest: read4_length)
  with assms(2) have "concat ls \<noteq> []" by (rule all_lines_concat)
  then have "0 < length (concat ls)" by (metis length_greater_0_conv)
  ultimately show ?thesis by linarith
qed

lemma sync_loop_measure:
  assumes a: "all_lines read_2_lines" and s: "step st read_2_lines = Inr st'"
  shows "(case read4 f_2 of (ls, r) \<Rightarrow> length (concat ls) + length r)
    < length (concat read_2_lines) + length f_2"
proof -
  obtain ls r where r: "read4 f_2 = (ls, r)" by (cases "read4 f_2")
  then have "concat ls @ r = f_2" by (rule read4_parts)
  then have "length (concat ls) + length r = length f_2"
    by (metis length_append)
  moreover from s have "read_2_lines \<noteq> []" by (auto simp: step_def)
  with a have "concat read_2_lines \<noteq> []" by (rule all_lines_concat)
  ultimately show ?thesis using r by simp
qed

termination sync_loop
  by (relation "measure (\<lambda>(st, ls, f). length (concat ls) + length f)")
     (auto simp: sync_loop_measure)

declare sync_loop.simps [simp del]

termination mate2_records
  by (relation "measure length") (auto intro: read4_shorter [OF sym])

declare mate2_records.simps [simp del]

lemma readline_line:
  "CHR 0x0A \<notin> set l \<Longrightarrow> readline (l @ CHR 0x0A # f) = (l @ [CHR 0x0A], f)"
  by (induction l) auto

lemma read4_Nil: "read4 [] = ([[], [], [], []], [])"
  by (simp add: read4_def)

section \<open>Tokens\<close>












section \<open>The scan over the slots\<close>

lemma slot_cases:
  "lookahead s = [] \<or> exhausted s \<or> tokenless s \<or> holds_key k s \<or> other_key k s"
  by (auto simp: exhausted_def tokenless_def holds_key_def other_key_def
      split: list.splits option.splits)

lemma scan_Cons_unbuffered: "lookahead s = [] \<Longrightarrow> scan k (s # ss) = Inl IndexError"
  by simp

lemma scan_Cons_exhausted:
  "exhausted s \<Longrightarrow> scan k (s # ss) = map_sum id (map_option Suc) (scan k ss)"
  by (auto simp: exhausted_def split: list.split_asm)

lemma scan_Cons_tokenless: "tokenless s \<Longrightarrow> scan k (s # ss) = Inl IndexError"
  by (auto simp: tokenless_def key_of_def split: list.split_asm)

lemma scan_Cons_holds_key: "holds_key k s \<Longrightarrow> scan k (s # ss) = Inr (Some 0)"
  by (auto simp: holds_key_def key_of_def split: list.split_asm)

lemma scan_Cons_other_key:
  "other_key k s \<Longrightarrow> scan k (s # ss) = map_sum id (map_option Suc) (scan k ss)"
  by (auto simp: other_key_def key_of_def split: list.split_asm option.split_asm)

lemmas scan_Cons =
  scan_Cons_unbuffered scan_Cons_exhausted scan_Cons_tokenless scan_Cons_holds_key
  scan_Cons_other_key

lemma slot_exclusive:
  "holds_key k s \<Longrightarrow> \<not> exhausted s \<and> \<not> other_key k s \<and> \<not> tokenless s"
  "tokenless s \<Longrightarrow> \<not> exhausted s \<and> \<not> other_key k s"
  by (auto simp: exhausted_def tokenless_def holds_key_def other_key_def
      split: list.splits option.splits)


lemma map_sum_Inr_Some:
  "map_sum id (map_option Suc) r = Inr (Some i) \<longleftrightarrow> (\<exists>n. i = Suc n \<and> r = Inr (Some n))"
  by (cases r; cases i) (auto simp: map_option_case split: option.splits)


lemma map_sum_Inl:
  "map_sum id (map_option Suc) r = Inl e \<longleftrightarrow> r = Inl e"
  by (cases r) auto

lemma scan_Some:
  "scan k ss = Inr (Some i) \<Longrightarrow>
     i < length ss \<and> holds_key k (ss ! i) \<and> (\<forall>j<i. exhausted (ss ! j) \<or> other_key k (ss ! j))"
proof (induction ss arbitrary: i)
  case Nil
  then show ?case by simp
next
  case (Cons s ss)
  from slot_cases [of s k] Cons.prems
  consider (here) "holds_key k s" "i = 0"
    | (later) n where "exhausted s \<or> other_key k s" "i = Suc n" "scan k ss = Inr (Some n)"
    by (auto simp: scan_Cons map_sum_Inr_Some simp del: scan.simps)
  then show ?case
  proof cases
    case here
    then show ?thesis by simp
  next
    case later
    from Cons.IH [OF later(3)] later(1,2) show ?thesis
      by (auto simp: less_Suc_eq_0_disj)
  qed
qed




lemma scan_tokenless:
  "i < length ss \<Longrightarrow> tokenless (ss ! i) \<Longrightarrow> (\<forall>j<i. \<not> holds_key k (ss ! j))
    \<Longrightarrow> scan k ss = Inl IndexError"
proof (induction ss arbitrary: i)
  case Nil
  then show ?case by simp
next
  case (Cons s ss)
  show ?case
  proof (cases i)
    case 0
    with Cons.prems show ?thesis by (simp add: scan_Cons del: scan.simps)
  next
    case (Suc n)
    with Cons.prems have "scan k ss = Inl IndexError"
      by (intro Cons.IH) auto
    moreover from Cons.prems Suc have "\<not> holds_key k s" by auto
    ultimately show ?thesis using slot_cases [of s k]
      by (auto simp: scan_Cons simp del: scan.simps)
  qed
qed

section \<open>One iteration\<close>

lemma step_found:
  "read_name_of r2 = Some k \<Longrightarrow> scan k (slots st) = Inr (Some i) \<Longrightarrow>
   step st r2 = Inr (st\<lparr>slots := (slots st)[i := advance r2 (slots st ! i)],
                        demultiplexed := demultiplexed st + 1\<rparr>)"
  by (auto simp: step_def read_name_of_def key_of_def split: list.splits)

lemma step_not_found:
  "read_name_of r2 = Some k \<Longrightarrow> scan k (slots st) = Inr None \<Longrightarrow>
   step st r2 = Inr (st\<lparr>stderr := stderr st @ [''mate missing in file_2: '' @ k @ [CHR 0x0A]],
                        not_matched := not_matched st + 1\<rparr>)"
  by (auto simp: step_def read_name_of_def key_of_def split: list.splits)

lemma step_scan_error:
  "read_name_of r2 = Some k \<Longrightarrow> scan k (slots st) = Inl e \<Longrightarrow> step st r2 = Inl e"
  by (auto simp: step_def read_name_of_def key_of_def split: list.splits)

lemma step_no_name: "read_name_of r2 = None \<Longrightarrow> step st r2 = Inl IndexError"
  by (auto simp: step_def read_name_of_def key_of_def split: list.splits)

lemma step_Inr_cases:
  assumes "step st r2 = Inr st'"
  obtains (found) k i where "read_name_of r2 = Some k" "scan k (slots st) = Inr (Some i)"
      "st' = st\<lparr>slots := (slots st)[i := advance r2 (slots st ! i)],
                 demultiplexed := demultiplexed st + 1\<rparr>"
    | (not_found) k where "read_name_of r2 = Some k" "scan k (slots st) = Inr None"
      "st' = st\<lparr>stderr := stderr st @ [''mate missing in file_2: '' @ k @ [CHR 0x0A]],
                 not_matched := not_matched st + 1\<rparr>"
proof (cases "read_name_of r2")
  case None
  with assms show ?thesis by (simp add: step_no_name)
next
  case (Some k)
  show ?thesis
  proof (cases "scan k (slots st)")
    case (Inl e)
    with Some assms show ?thesis by (simp add: step_scan_error)
  next
    case (Inr r)
    show ?thesis
    proof (cases r)
      case None
      with Some Inr assms not_found show ?thesis by (simp add: step_not_found)
    next
      case (Some i)
      with \<open>read_name_of r2 = Some k\<close> Inr assms found show ?thesis by (simp add: step_found)
    qed
  qed
qed

lemma advance_fields:
  "out2 (advance r2 s) = out2 s @ concat r2"
  "(lookahead (advance r2 s), mate1 (advance r2 s)) = read4 (mate1 s)"
  by (auto simp: advance_def split: prod.splits)



section \<open>The loop as a fold over the records read\<close>

lemma sync_from_unfold:
  "sync_from st f_2 =
     (case read4 f_2 of (ls, r) \<Rightarrow>
        if all_lines ls then (case step st ls of Inl e \<Rightarrow> Inl e | Inr st' \<Rightarrow> sync_from st' r)
        else Inr st)"
  by (auto simp: sync_from_def sync_loop.simps [of st] split: prod.splits sum.splits)

lemma sync_from_run_steps: "sync_from st f_2 = run_steps st (mate2_records f_2)"
proof (induction f_2 arbitrary: st rule: mate2_records.induct)
  case (1 f_2)
  obtain ls r where r: "read4 f_2 = (ls, r)" by (cases "read4 f_2")
  show ?case
  proof (cases "all_lines ls")
    case True
    with r 1 [OF r [symmetric] True] show ?thesis
      by (subst sync_from_unfold, subst mate2_records.simps) (simp split: sum.splits)
  next
    case False
    with r show ?thesis
      by (subst sync_from_unfold, subst mate2_records.simps) simp
  qed
qed


section \<open>Files of well-formed records\<close>

lemma wf_record_4:
  assumes "wf_record r"
  obtains a b c d where "r = [a, b, c, d]" "CHR 0x0A \<notin> set a" "CHR 0x0A \<notin> set b"
    "CHR 0x0A \<notin> set c" "CHR 0x0A \<notin> set d" "key_of a \<noteq> None"
proof -
  from assms have "length r = 4" by (simp add: wf_record_def)
  then obtain a b c d where r: "r = [a, b, c, d]"
    by (auto simp: length_Suc_conv numeral_eq_Suc)
  with assms that show ?thesis by (simp add: wf_record_def)
qed

lemma read4_record:
  assumes "wf_record r"
  shows "read4 (record_text r @ f) = (lines_of r, f)"
proof -
  from assms obtain a b c d where r: "r = [a, b, c, d]" and n: "CHR 0x0A \<notin> set a"
    "CHR 0x0A \<notin> set b" "CHR 0x0A \<notin> set c" "CHR 0x0A \<notin> set d"
    by (rule wf_record_4)
  have "record_text r @ f = a @ CHR 0x0A # b @ CHR 0x0A # c @ CHR 0x0A # d @ CHR 0x0A # f"
    by (simp add: r record_text_def lines_of_def)
  then show ?thesis using n
    by (simp add: read4_def readline_line r lines_of_def)
qed

lemma read4_fastq_Cons:
  "wf_record r \<Longrightarrow> read4 (fastq_text (r # rs)) = (lines_of r, fastq_text rs)"
  using read4_record [of r "fastq_text rs"] by (simp add: fastq_text_def)

lemma fastq_text_Nil [simp]: "fastq_text [] = []"
  by (simp add: fastq_text_def)

lemma all_lines_lines_of: "all_lines (lines_of r)"
  by (simp add: all_lines_def lines_of_def list_all_iff)

lemma mate2_records_text:
  "list_all wf_record rs \<Longrightarrow> mate2_records (fastq_text rs) = map lines_of rs"
proof (induction rs)
  case Nil
  show ?case by (subst mate2_records.simps) (simp add: read4_Nil all_lines_def)
next
  case (Cons r rs)
  then have "read4 (fastq_text (r # rs)) = (lines_of r, fastq_text rs)"
    by (simp add: read4_fastq_Cons)
  with Cons show ?case
    by (subst mate2_records.simps) (simp add: all_lines_lines_of)
qed

lemma mate2_records_trailing:
  assumes "list_all wf_record recs" and "read4 t = (ls, rest)" and "\<not> all_lines ls"
  shows "mate2_records (fastq_text recs @ t) = map lines_of recs"
  using assms(1)
proof (induction recs)
  case Nil
  from assms(2,3) show ?case by (subst mate2_records.simps) simp
next
  case (Cons r recs)
  then have "wf_record r" by simp
  then have "read4 (record_text r @ (fastq_text recs @ t)) = (lines_of r, fastq_text recs @ t)"
    by (rule read4_record)
  then have "read4 (fastq_text (r # recs) @ t) = (lines_of r, fastq_text recs @ t)"
    by (simp add: fastq_text_def)
  with Cons show ?case
    by (subst mate2_records.simps) (simp add: all_lines_lines_of)
qed







section \<open>The streams of a job\<close>

text \<open>
  When every \<open>open\<close> succeeds, the \<open>finally\<close> clause and the \<open>with\<close> statement
  close every stream of the job, whatever the loop returns or raises.
\<close>

lemma open_inputs_opened:
  "open_inputs fs fnames opened = (opened', Some cs) \<Longrightarrow> opened' = opened @ map Rd fnames"
proof (induction fnames arbitrary: opened cs)
  case Nil
  then show ?case by simp
next
  case (Cons n ns)
  then obtain c cs' where "fs n = Some c"
    and r: "open_inputs fs ns (opened @ [Rd n]) = (opened', Some cs')"
    by (auto split: option.splits prod.splits)
  from Cons.IH [OF r] show ?case by simp
qed

lemma open_outputs_opened:
  "open_outputs wr fnames opened = (opened', True) \<Longrightarrow>
     opened' = opened @ map (Wr \<circ> demux2_name) fnames"
proof (induction fnames arbitrary: opened)
  case Nil
  then show ?case by simp
next
  case (Cons n ns)
  then have r: "open_outputs wr ns (opened @ [Wr (demux2_name n)]) = (opened', True)"
    by (auto split: if_splits)
  from Cons.IH [OF r] show ?case by simp
qed

lemma mset_close_all: "mset (close_all hs opened) = mset opened - mset hs"
  unfolding close_all_def
proof (induction hs arbitrary: opened)
  case Nil
  show ?case by simp
next
  case (Cons h hs)
  have "mset (fold remove1 hs (remove1 h opened)) = mset (remove1 h opened) - mset hs"
    by (rule Cons.IH)
  then show ?case by (simp add: diff_diff_add)
qed

lemma run_closes_all_when_opened:
  assumes "fs file_2 = Some f_2"
    and "open_inputs fs fnames [Rd file_2] = (opened, Some files_1)"
    and "open_outputs wr fnames opened = (opened', True)"
  shows "run fs wr fnames file_2 = \<lparr>outcome = synchronize files_1 f_2, not_closed = []\<rparr>"
proof -
  let ?R = "map Rd fnames" and ?W = "map (Wr \<circ> demux2_name) fnames"
  from assms(2) have o: "opened = [Rd file_2] @ ?R" by (rule open_inputs_opened)
  from assms(3) have o': "opened' = opened @ ?W" by (rule open_outputs_opened)
  have "mset (remove1 (Rd file_2) (close_all ?W (close_all ?R opened'))) = {#}"
    by (simp add: mset_close_all o o')
  then have "remove1 (Rd file_2) (close_all ?W (close_all ?R opened')) = []"
    by (simp only: mset_zero_iff)
  with assms show ?thesis by (simp add: run_def)
qed

section \<open>The common prefix\<close>

lemma find_prefix_loop_acc:
  "find_prefix_loop c (zip a b) = c @ find_prefix_loop [] (zip a b)"
proof (induction a arbitrary: b c)
  case Nil
  then show ?case by simp
next
  case (Cons x a)
  show ?case
  proof (cases b)
    case Nil
    then show ?thesis by simp
  next
    case (Cons y b')
    have "find_prefix_loop (c @ [x]) (zip a b') = (c @ [x]) @ find_prefix_loop [] (zip a b')"
      by (rule Cons.IH)
    moreover have "find_prefix_loop [x] (zip a b') = [x] @ find_prefix_loop [] (zip a b')"
      using Cons.IH [of "[x]" b'] by simp
    ultimately show ?thesis using Cons by auto
  qed
qed

lemma find_prefix_Nil [simp]: "find_prefix [] b = []" "find_prefix a [] = []"
  by (simp_all add: find_prefix_def)

lemma find_prefix_Cons [simp]:
  "find_prefix (x # a) (y # b) = (if x \<noteq> y then [] else x # find_prefix a b)"
  using find_prefix_loop_acc [of "[x]" a b] by (auto simp: find_prefix_def)

section \<open>The claims\<close>







text \<open>
  Claim C4. Whenever an iteration changes the content of the output stream of slot \<open>i\<close>,
  the record it read from the mate-2 file has a key, the record that slot \<open>i\<close> buffered
  before the iteration has the same key, the buffer of slot \<open>i\<close> has moved on to the next
  four lines of its mate-1 file, and what was appended to the output are the four lines
  of the mate-2 record.
\<close>

theorem written_key_equals_consumed_key:
  assumes "step st r = Inr st'" and "i < length (slots st)"
    and "out2 (slots st' ! i) \<noteq> out2 (slots st ! i)"
  shows "\<exists>k. read_name_of r = Some k \<and> holds_key k (slots st ! i) \<and>
      (lookahead (slots st' ! i), mate1 (slots st' ! i)) = read4 (mate1 (slots st ! i)) \<and>
      out2 (slots st' ! i) = out2 (slots st ! i) @ concat r"
  using assms(1)
proof (cases rule: step_Inr_cases)
  case (found k n)
  with assms(2,3) have "n = i" by (cases "n = i") auto
  with found scan_Some [of k "slots st" n] assms(2) show ?thesis
    by (simp add: advance_fields)
next
  case (not_found k)
  with assms(3) show ?thesis by simp
qed

theorem written_key_equals_consumed_key_witness:
  "\<exists>k. read_name_of (lines_of [''@id3 2'', ''CCGG'', ''+'', ''KKKK'']) = Some k \<and>
     holds_key k (prime (fastq_text [[''@id3 1'', ''GGCC'', ''+'', ''JJJJ''],
                                     [''@id5 1'', ''GGTT'', ''+'', ''JJJJ'']])) \<and>
     k = ''@id3''"
proof -
  let ?A = "prime (fastq_text [[''@id1 1'', ''ACGT'', ''+'', ''IIII'']])"
  let ?B = "prime (fastq_text [[''@id3 1'', ''GGCC'', ''+'', ''JJJJ''],
                               [''@id5 1'', ''GGTT'', ''+'', ''JJJJ'']])"
  let ?st = "\<lparr>slots = [?A, ?B], demultiplexed = 0, not_matched = 0, stderr = []\<rparr>"
  let ?r = "lines_of [''@id3 2'', ''CCGG'', ''+'', ''KKKK'']"
  let ?st' = "\<lparr>slots = [?A, advance ?r ?B], demultiplexed = 1, not_matched = 0, stderr = []\<rparr>"
  have h1: "step ?st ?r = Inr ?st'" by code_simp
  have h2: "(1::nat) < length (slots ?st)" by simp
  have h3: "out2 (slots ?st' ! 1) \<noteq> out2 (slots ?st ! 1)" by code_simp
  from written_key_equals_consumed_key [OF h1 h2 h3]
  obtain k where k: "read_name_of ?r = Some k" and h: "holds_key k (slots ?st ! 1)" by blast
  have "read_name_of ?r = Some ''@id3''" by code_simp
  with k have "k = ''@id3''" by simp
  with k h show ?thesis by simp
qed



text \<open>
  Claim C6 fails on the code: the source has no malformed-record condition. The loop
  guard \<open>all(read_2_lines)\<close> is false as soon as one of the four reads returns the empty
  string, and the loop then ends like at the end of a complete file. Here the mate-2 file
  holds one complete record followed by two lines: the run ends normally, the complete
  record is routed, nothing is reported and the two lines are dropped.
\<close>

theorem partial_record_not_reported:
  "synchronize [fastq_text [[''@id1 1'', ''ACGT'', ''+'', ''IIII'']]]
     (fastq_text [[''@id1 2'', ''TGCA'', ''+'', ''LLLL'']] @ ''@id2 2\<newline>AAGT\<newline>'')
   = Inr \<lparr>slots = [\<lparr>lookahead = [[], [], [], []], mate1 = [],
                     out2 = ''@id1 2\<newline>TGCA\<newline>+\<newline>LLLL\<newline>''\<rparr>],
          demultiplexed = 1, not_matched = 0, stderr = []\<rparr>"
  by code_simp

text \<open>
  Claim C6 as amended. When the mate-2 file is a sequence of well-formed records followed
  by fewer than four lines (four reads on the tail do not give four non-empty lines), the
  records read are the complete ones, the loop ends normally with the state it would
  reach without the tail, and a loop that starts on such a tail returns at once: the
  trailing lines are dropped without any report.
\<close>

theorem trailing_lines_dropped_silently:
  assumes "list_all wf_record recs" and "read4 t = (ls, rest)" and "\<not> all_lines ls"
  shows "mate2_records (fastq_text recs @ t) = map lines_of recs \<and>
    sync_from st (fastq_text recs @ t) = sync_from st (fastq_text recs) \<and>
    sync_from st t = Inr st"
proof -
  have "mate2_records (fastq_text recs @ t) = map lines_of recs"
    using assms by (rule mate2_records_trailing)
  moreover have "mate2_records (fastq_text recs) = map lines_of recs"
    using assms(1) by (rule mate2_records_text)
  moreover have "sync_from st t = Inr st"
    using assms(2,3) by (simp add: sync_from_unfold)
  ultimately show ?thesis by (simp add: sync_from_run_steps)
qed

theorem trailing_lines_dropped_silently_witness:
  "mate2_records (fastq_text [[''@id1 2'', ''TGCA'', ''+'', ''LLLL'']] @ ''@id2 2\<newline>AAGT\<newline>'')
     = [lines_of [''@id1 2'', ''TGCA'', ''+'', ''LLLL'']] \<and>
   sync_from \<lparr>slots = [], demultiplexed = 0, not_matched = 0, stderr = []\<rparr>
       ''@id2 2\<newline>AAGT\<newline>''
     = Inr \<lparr>slots = [], demultiplexed = 0, not_matched = 0, stderr = []\<rparr>"
proof -
  have h1: "list_all wf_record [[''@id1 2'', ''TGCA'', ''+'', ''LLLL'']]" by code_simp
  have h2: "read4 ''@id2 2\<newline>AAGT\<newline>'' = ([''@id2 2\<newline>'', ''AAGT\<newline>'', [], []], [])"
    by code_simp
  have h3: "\<not> all_lines [''@id2 2\<newline>'', ''AAGT\<newline>'', [], []]" by code_simp
  from trailing_lines_dropped_silently [OF h1 h2 h3,
      of "\<lparr>slots = [], demultiplexed = 0, not_matched = 0, stderr = []\<rparr>"]
  show ?thesis by simp
qed

text \<open>
  Claim C7 holds for the job as a whole only when every stream could be opened. The list
  comprehensions that open the per-slot streams stand inside the \<open>try\<close> block, so when
  one \<open>open\<close> raises, the name of the list was never bound: the \<open>finally\<close> clause
  raises UnboundLocalError on it and closes nothing more. With two buckets of which the
  second cannot be opened for reading, the stream of the first is never closed by the
  program; when the second output cannot be created, the first output is never closed.
\<close>

theorem open_failure_leaves_stream_open:
  "run [''s_2.fastq'' \<mapsto> ''@id1 2\<newline>TGCA\<newline>+\<newline>LLLL\<newline>'',
        ''s_A_demux1.fastq'' \<mapsto> ''@id1 1\<newline>ACGT\<newline>+\<newline>IIII\<newline>'']
       (\<lambda>name. True)
       [''s_A_demux1.fastq'', ''s_B_demux1.fastq''] ''s_2.fastq''
   = \<lparr>outcome = Inl UnboundLocalError, not_closed = [Rd ''s_A_demux1.fastq'']\<rparr> \<and>
   run [''s_2.fastq'' \<mapsto> ''@id1 2\<newline>TGCA\<newline>+\<newline>LLLL\<newline>'',
        ''s_A_demux1.fastq'' \<mapsto> ''@id1 1\<newline>ACGT\<newline>+\<newline>IIII\<newline>'',
        ''s_B_demux1.fastq'' \<mapsto> []]
       (\<lambda>name. name \<noteq> ''s_B_demux2.fastq'')
       [''s_A_demux1.fastq'', ''s_B_demux1.fastq''] ''s_2.fastq''
   = \<lparr>outcome = Inl UnboundLocalError, not_closed = [Wr ''s_A_demux2.fastq'']\<rparr>"
  by code_simp

text \<open>
  Claim C8. For all strings \<open>a\<close> and \<open>b\<close>, \<open>find_prefix a b\<close> is a prefix of both, and
  either it is as long as the shorter of the two or the characters of \<open>a\<close> and \<open>b\<close> that
  follow it differ: it is the longest common prefix.
\<close>

theorem find_prefix_longest_common:
  "prefix (find_prefix a b) a \<and> prefix (find_prefix a b) b \<and>
   (length (find_prefix a b) = min (length a) (length b) \<or>
    (length (find_prefix a b) < length a \<and> length (find_prefix a b) < length b \<and>
     a ! length (find_prefix a b) \<noteq> b ! length (find_prefix a b)))"
proof (induction a arbitrary: b)
  case Nil
  then show ?case by simp
next
  case (Cons x a)
  show ?case
  proof (cases b)
    case Nil
    then show ?thesis by simp
  next
    case (Cons y b')
    with Cons.IH [of b'] show ?thesis by auto
  qed
qed

theorem find_prefix_longest_common_witness:
  "find_prefix ''run7_1.fastq'' ''run7_2.fastq'' = ''run7_'' \<and>
   prefix ''run7_'' ''run7_1.fastq'' \<and> prefix ''run7_'' ''run7_2.fastq'' \<and>
   ''run7_1.fastq'' ! 5 \<noteq> ''run7_2.fastq'' ! 5"
  using find_prefix_longest_common [of "''run7_1.fastq''" "''run7_2.fastq''"]
  by simp

text \<open>
  Claim C9 fails on the code for the slots: the scan stops at the first slot that
  matches, so a later slot that buffers a whitespace-only line is not looked at. Here the
  second bucket has a blank group of four lines after its only record. The first mate-2
  record moves the second slot on to the blank group; the second mate-2 record matches the
  first slot, is counted as matched, and the run ends normally.
\<close>

theorem tokenless_slot_not_reached:
  "step \<lparr>slots = [prime (fastq_text [[''@id1 1'', ''ACGT'', ''+'', ''IIII'']]),
                  prime (fastq_text [[''@id2 1'', ''GGCC'', ''+'', ''JJJJ'']]
                         @ '' \<newline> \<newline> \<newline> \<newline>'')],
         demultiplexed = 0, not_matched = 0, stderr = []\<rparr>
     (lines_of [''@id2 2'', ''CCGG'', ''+'', ''KKKK''])
   = Inr \<lparr>slots = [\<lparr>lookahead = [''@id1 1'', ''ACGT'', ''+'', ''IIII''], mate1 = [], out2 = []\<rparr>,
                    \<lparr>lookahead = ['' \<newline>'', '' \<newline>'', '' \<newline>'', '' \<newline>''], mate1 = [],
                       out2 = ''@id2 2\<newline>CCGG\<newline>+\<newline>KKKK\<newline>''\<rparr>],
           demultiplexed = 1, not_matched = 0, stderr = []\<rparr> \<and>
   tokenless \<lparr>lookahead = ['' \<newline>'', '' \<newline>'', '' \<newline>'', '' \<newline>''], mate1 = [],
               out2 = ''@id2 2\<newline>CCGG\<newline>+\<newline>KKKK\<newline>''\<rparr> \<and>
   all_lines (lines_of [''@id1 2'', ''TGCA'', ''+'', ''LLLL'']) \<and>
   step \<lparr>slots = [\<lparr>lookahead = [''@id1 1'', ''ACGT'', ''+'', ''IIII''], mate1 = [], out2 = []\<rparr>,
                  \<lparr>lookahead = ['' \<newline>'', '' \<newline>'', '' \<newline>'', '' \<newline>''], mate1 = [],
                     out2 = ''@id2 2\<newline>CCGG\<newline>+\<newline>KKKK\<newline>''\<rparr>],
         demultiplexed = 1, not_matched = 0, stderr = []\<rparr>
     (lines_of [''@id1 2'', ''TGCA'', ''+'', ''LLLL''])
   = Inr \<lparr>slots = [\<lparr>lookahead = [[], [], [], []], mate1 = [],
                       out2 = ''@id1 2\<newline>TGCA\<newline>+\<newline>LLLL\<newline>''\<rparr>,
                    \<lparr>lookahead = ['' \<newline>'', '' \<newline>'', '' \<newline>'', '' \<newline>''], mate1 = [],
                       out2 = ''@id2 2\<newline>CCGG\<newline>+\<newline>KKKK\<newline>''\<rparr>],
           demultiplexed = 2, not_matched = 0, stderr = []\<rparr> \<and>
   synchronize [fastq_text [[''@id1 1'', ''ACGT'', ''+'', ''IIII'']],
                fastq_text [[''@id2 1'', ''GGCC'', ''+'', ''JJJJ'']] @ '' \<newline> \<newline> \<newline> \<newline>'']
     (fastq_text [[''@id2 2'', ''CCGG'', ''+'', ''KKKK''], [''@id1 2'', ''TGCA'', ''+'', ''LLLL'']])
   = Inr \<lparr>slots = [\<lparr>lookahead = [[], [], [], []], mate1 = [],
                       out2 = ''@id1 2\<newline>TGCA\<newline>+\<newline>LLLL\<newline>''\<rparr>,
                    \<lparr>lookahead = ['' \<newline>'', '' \<newline>'', '' \<newline>'', '' \<newline>''], mate1 = [],
                       out2 = ''@id2 2\<newline>CCGG\<newline>+\<newline>KKKK\<newline>''\<rparr>],
           demultiplexed = 2, not_matched = 0, stderr = []\<rparr>"
  by code_simp

text \<open>
  Claim C9 as amended. An iteration whose four mate-2 lines are non-empty raises
  IndexError, and so does the loop, (1) when the identifier line of the mate-2 record has
  no token, and (2) when the record has a key, some slot buffers a non-empty line without
  a token, and no slot before that one buffers a record with the key of the mate-2
  record, so that the scan gets as far as that slot. Nothing is written or counted for
  that record.
\<close>

theorem tokenless_line_raises:
  "(all_lines r \<and> read_name_of r = None \<longrightarrow>
      step st r = Inl IndexError \<and> sync_loop st r f = Inl IndexError) \<and>
   (all_lines r \<and> read_name_of r = Some k \<and> i < length (slots st) \<and>
    tokenless (slots st ! i) \<and> (\<forall>j<i. \<not> holds_key k (slots st ! j)) \<longrightarrow>
      step st r = Inl IndexError \<and> sync_loop st r f = Inl IndexError)"
proof (intro conjI impI)
  assume a: "all_lines r \<and> read_name_of r = None"
  then show "step st r = Inl IndexError" by (simp add: step_no_name)
  with a show "sync_loop st r f = Inl IndexError"
    by (simp add: sync_loop.simps [of st r f])
next
  assume a: "all_lines r \<and> read_name_of r = Some k \<and> i < length (slots st) \<and>
    tokenless (slots st ! i) \<and> (\<forall>j<i. \<not> holds_key k (slots st ! j))"
  then have "scan k (slots st) = Inl IndexError" by (intro scan_tokenless) auto
  with a show s: "step st r = Inl IndexError" by (simp add: step_scan_error)
  with a show "sync_loop st r f = Inl IndexError"
    by (simp add: sync_loop.simps [of st r f])
qed

theorem tokenless_line_raises_witness:
  "sync_loop \<lparr>slots = [], demultiplexed = 0, not_matched = 0, stderr = []\<rparr>
     ['' \<newline>'', ''ACGT\<newline>'', ''+\<newline>'', ''IIII\<newline>''] [] = Inl IndexError \<and>
   sync_loop
     \<lparr>slots = [\<lparr>lookahead = [''@id1 1'', ''ACGT'', ''+'', ''IIII''], mate1 = [], out2 = []\<rparr>,
               \<lparr>lookahead = ['' \<newline>'', '' \<newline>'', '' \<newline>'', '' \<newline>''], mate1 = [],
                  out2 = ''@id2 2\<newline>CCGG\<newline>+\<newline>KKKK\<newline>''\<rparr>],
      demultiplexed = 1, not_matched = 0, stderr = []\<rparr>
     (lines_of [''@id9 2'', ''TGCA'', ''+'', ''LLLL'']) [] = Inl IndexError"
proof -
  let ?e = "\<lparr>slots = [], demultiplexed = 0, not_matched = 0, stderr = []\<rparr>"
  let ?b = "['' \<newline>'', ''ACGT\<newline>'', ''+\<newline>'', ''IIII\<newline>'']"
  let ?st = "\<lparr>slots = [\<lparr>lookahead = [''@id1 1'', ''ACGT'', ''+'', ''IIII''], mate1 = [], out2 = []\<rparr>,
               \<lparr>lookahead = ['' \<newline>'', '' \<newline>'', '' \<newline>'', '' \<newline>''], mate1 = [],
                  out2 = ''@id2 2\<newline>CCGG\<newline>+\<newline>KKKK\<newline>''\<rparr>],
      demultiplexed = 1, not_matched = 0, stderr = []\<rparr>"
  let ?r = "lines_of [''@id9 2'', ''TGCA'', ''+'', ''LLLL'']"
  have a1: "all_lines ?b \<and> read_name_of ?b = None" by code_simp
  have b0: "\<not> holds_key ''@id9'' (slots ?st ! 0)" by code_simp
  have b1: "all_lines ?r \<and> read_name_of ?r = Some ''@id9'' \<and> (1::nat) < length (slots ?st) \<and>
    tokenless (slots ?st ! 1)" by code_simp
  from b0 have b2: "\<forall>j<(1::nat). \<not> holds_key ''@id9'' (slots ?st ! j)" by simp
  from tokenless_line_raises [where r = ?b and st = ?e and f = "[]", THEN conjunct1, THEN mp,
      OF a1]
    tokenless_line_raises [where r = ?r and st = ?st and f = "[]" and k = "''@id9''" and i = 1,
      THEN conjunct2, THEN mp, OF conjI [OF conjunct1 [OF b1]
        conjI [OF conjunct1 [OF conjunct2 [OF b1]] conjI [OF conjunct1 [OF conjunct2 [OF conjunct2 [OF b1]]]
        conjI [OF conjunct2 [OF conjunct2 [OF conjunct2 [OF b1]]] b2]]]]]
  show ?thesis by blast
qed

text \<open>
  Claim C10. An iteration that completes keeps the number of slots, and either it is an
  unmatched one (the unmatched counter grows by one) and no slot changes at all, or it is
  a matched one and every slot other than the first slot that buffers the key of the
  record is unchanged: its buffer, the unread rest of its mate-1 file and the content of
  its output stream.
\<close>

theorem step_frame:
  assumes "step st r = Inr st'"
  shows "length (slots st') = length (slots st) \<and>
    ((not_matched st' = not_matched st + 1 \<and> demultiplexed st' = demultiplexed st \<and>
      slots st' = slots st) \<or>
     (\<exists>k i. read_name_of r = Some k \<and> i < length (slots st) \<and> holds_key k (slots st ! i) \<and>
        (\<forall>j<i. \<not> holds_key k (slots st ! j)) \<and>
        demultiplexed st' = demultiplexed st + 1 \<and> not_matched st' = not_matched st \<and>
        (\<forall>j<length (slots st). j \<noteq> i \<longrightarrow> slots st' ! j = slots st ! j)))"
  using assms
proof (cases rule: step_Inr_cases)
  case (found k i)
  from scan_Some [OF found(2)] have "i < length (slots st)" "holds_key k (slots st ! i)"
    "\<forall>j<i. \<not> holds_key k (slots st ! j)"
    using slot_exclusive(1) by blast+
  with found show ?thesis by auto
next
  case (not_found k)
  then show ?thesis by simp
qed

theorem step_frame_witness:
  "\<exists>st'. step \<lparr>slots = map prime [fastq_text [[''@id1 1'', ''ACGT'', ''+'', ''IIII'']],
                                    fastq_text [[''@id3 1'', ''GGCC'', ''+'', ''JJJJ'']],
                                    fastq_text [[''@id5 1'', ''GGCC'', ''+'', ''JJJJ'']]],
                 demultiplexed = 0, not_matched = 0, stderr = []\<rparr>
            (lines_of [''@id3 2'', ''CCGG'', ''+'', ''KKKK'']) = Inr st' \<and>
     length (slots st') = 3 \<and>
     slots st' ! 0 = prime (fastq_text [[''@id1 1'', ''ACGT'', ''+'', ''IIII'']]) \<and>
     slots st' ! 2 = prime (fastq_text [[''@id5 1'', ''GGCC'', ''+'', ''JJJJ'']])"
proof -
  let ?st = "\<lparr>slots = map prime [fastq_text [[''@id1 1'', ''ACGT'', ''+'', ''IIII'']],
                                    fastq_text [[''@id3 1'', ''GGCC'', ''+'', ''JJJJ'']],
                                    fastq_text [[''@id5 1'', ''GGCC'', ''+'', ''JJJJ'']]],
                 demultiplexed = 0, not_matched = 0, stderr = []\<rparr>"
  let ?r = "lines_of [''@id3 2'', ''CCGG'', ''+'', ''KKKK'']"
  have "case step ?st ?r of Inl e \<Rightarrow> False | Inr s \<Rightarrow> not_matched s = 0" by code_simp
  then obtain st' where s: "step ?st ?r = Inr st'" and u: "not_matched st' = 0"
    by (cases "step ?st ?r") auto
  have n: "read_name_of ?r = Some ''@id3''" by code_simp
  have h0: "\<not> holds_key ''@id3'' (slots ?st ! 0)" by code_simp
  have h2: "\<not> holds_key ''@id3'' (slots ?st ! 2)" by code_simp
  from step_frame [OF s] u
  obtain k i where len: "length (slots st') = length (slots ?st)"
    and k: "read_name_of ?r = Some k" and i: "i < length (slots ?st)"
    and h: "holds_key k (slots ?st ! i)"
    and fr: "\<forall>j<length (slots ?st). j \<noteq> i \<longrightarrow> slots st' ! j = slots ?st ! j"
    by auto
  from k n have "k = ''@id3''" by simp
  with h h0 h2 i have "i = 1"
    by (cases "i = 0"; cases "i = 2") (auto simp: less_Suc_eq numeral_3_eq_3)
  with fr len have "length (slots st') = 3" "slots st' ! 0 = slots ?st ! 0"
    "slots st' ! 2 = slots ?st ! 2" by simp_all
  with s show ?thesis by simp
qed

end
